theory Spec2Isabelle
  imports Main "HOL-Library.Sublist"
begin

section \<open>Strings of the source language\<close>

text \<open>
  Python strings are sequences of code points. The model uses \<^typ>\<open>string\<close>, so a character
  is a code point below 256 (Latin-1); on that range the character classes below are the ones
  of \<^verbatim>\<open>str.lower\<close>, \<^verbatim>\<open>str.strip\<close> and of the \<^verbatim>\<open>re\<close> module's
  \<^verbatim>\<open>\d\<close> and \<^verbatim>\<open>\w\<close> on \<^verbatim>\<open>str\<close> patterns.
\<close>

definition is_digit :: "char \<Rightarrow> bool" where
  "is_digit c = (let n = (of_char c :: nat) in 48 \<le> n \<and> n \<le> 57)"

definition is_word :: "char \<Rightarrow> bool" where
  "is_word c = (let n = (of_char c :: nat) in
     (48 \<le> n \<and> n \<le> 57) \<or> (65 \<le> n \<and> n \<le> 90) \<or> n = 95 \<or> (97 \<le> n \<and> n \<le> 122) \<or>
     n = 170 \<or> n = 178 \<or> n = 179 \<or> n = 181 \<or> n = 185 \<or> n = 186 \<or>
     (188 \<le> n \<and> n \<le> 190) \<or> (192 \<le> n \<and> n \<le> 214) \<or> (216 \<le> n \<and> n \<le> 246) \<or> 248 \<le> n)"

definition is_space :: "char \<Rightarrow> bool" where
  "is_space c = (let n = (of_char c :: nat) in
     (9 \<le> n \<and> n \<le> 13) \<or> (28 \<le> n \<and> n \<le> 32) \<or> n = 133 \<or> n = 160)"

definition lower_char :: "char \<Rightarrow> char" where
  "lower_char c = (let n = (of_char c :: nat) in
     if (65 \<le> n \<and> n \<le> 90) \<or> (192 \<le> n \<and> n \<le> 214) \<or> (216 \<le> n \<and> n \<le> 222)
     then char_of (n + 32) else c)"

text \<open>\<^verbatim>\<open>s.lower()\<close>\<close>

definition lower :: "string \<Rightarrow> string" where
  "lower s = map lower_char s"

text \<open>\<^verbatim>\<open>s.strip()\<close>: leading and trailing whitespace removed.\<close>

definition strip :: "string \<Rightarrow> string" where
  "strip s = rev (dropWhile is_space (rev (dropWhile is_space s)))"

text \<open>\<^verbatim>\<open>needle in hay\<close> on strings: \<^term>\<open>needle\<close> occurs as a contiguous substring.\<close>

fun str_in :: "string \<Rightarrow> string \<Rightarrow> bool" where
  "str_in needle [] = (needle = [])"
| "str_in needle (c # cs) = (prefix needle (c # cs) \<or> str_in needle cs)"

text \<open>\<^verbatim>\<open>s.split('\n')\<close>: the pieces between line feeds; always at least one piece.\<close>

fun split_nl :: "string \<Rightarrow> string list" where
  "split_nl [] = [[]]"
| "split_nl (c # cs) =
     (if c = CHR 0x0A then [] # split_nl cs
      else (case split_nl cs of [] \<Rightarrow> [[c]] | l # ls \<Rightarrow> (c # l) # ls))"

section \<open>The date pattern\<close>

text \<open>
  \<^verbatim>\<open>DATE_PATTERN = r'\b(\d{1,2}/\d{1,2}/\d{4})\b'\<close>, used only through
  \<^verbatim>\<open>re.search\<close> and only for whether it matches. A matcher state is the character
  before the current position (none at the start of the string) and the rest of the input;
  each piece of the pattern either consumes input or fails.
\<close>

type_synonym mstate = "char option \<times> string"

fun is_word_opt :: "char option \<Rightarrow> bool" where
  "is_word_opt None = False"
| "is_word_opt (Some c) = is_word c"

fun next_char :: "string \<Rightarrow> char option" where
  "next_char [] = None"
| "next_char (c # cs) = Some c"

text \<open>\<^verbatim>\<open>\b\<close>: exactly one side of the position is a word character.\<close>

fun m_bound :: "mstate \<Rightarrow> mstate option" where
  "m_bound (p, s) = (if is_word_opt p \<noteq> is_word_opt (next_char s) then Some (p, s) else None)"

text \<open>\<^verbatim>\<open>\d\<close>\<close>

fun m_digit :: "mstate \<Rightarrow> mstate option" where
  "m_digit (p, []) = None"
| "m_digit (p, c # cs) = (if is_digit c then Some (Some c, cs) else None)"

text \<open>\<^verbatim>\<open>\d{n}\<close>\<close>

fun m_digits :: "nat \<Rightarrow> mstate \<Rightarrow> mstate option" where
  "m_digits 0 st = Some st"
| "m_digits (Suc n) st = Option.bind (m_digit st) (m_digits n)"

text \<open>A literal character.\<close>

fun m_char :: "char \<Rightarrow> mstate \<Rightarrow> mstate option" where
  "m_char x (p, []) = None"
| "m_char x (p, c # cs) = (if c = x then Some (Some c, cs) else None)"

text \<open>The pattern with its two counted repetitions fixed at \<open>a\<close> and \<open>b\<close> digits.\<close>

definition m_date :: "nat \<Rightarrow> nat \<Rightarrow> mstate \<Rightarrow> mstate option" where
  "m_date a b st =
     Option.bind (Option.bind (Option.bind (Option.bind (Option.bind (Option.bind
       (m_bound st) (m_digits a)) (m_char (CHR ''/''))) (m_digits b)) (m_char (CHR ''/'')))
       (m_digits 4)) m_bound"

text \<open>
  A match at the current position: the engine tries two digits before one and backtracks, so
  a match exists exactly when one of the four choices of repetition counts succeeds.
\<close>

definition date_at :: "mstate \<Rightarrow> bool" where
  "date_at st = (m_date 2 2 st \<noteq> None \<or> m_date 2 1 st \<noteq> None \<or>
                 m_date 1 2 st \<noteq> None \<or> m_date 1 1 st \<noteq> None)"

text \<open>\<^verbatim>\<open>re.search\<close>: a match at some position, scanning left to right.\<close>

fun search_from :: "char option \<Rightarrow> string \<Rightarrow> bool" where
  "search_from p [] = date_at (p, [])"
| "search_from p (c # cs) = (date_at (p, c # cs) \<or> search_from (Some c) cs)"

definition re_search_date :: "string \<Rightarrow> bool" where
  "re_search_date s = search_from None s"

section \<open>Configuration\<close>

type_synonym coord = "int \<times> int"

definition SIGNATURE_MARKER :: string where "SIGNATURE_MARKER = ''Signature:''"
definition DATE_MARKER :: string where "DATE_MARKER = ''Date:''"
definition default_signature_coords :: coord where "default_signature_coords = (250, 293)"
definition default_date_coords :: coord where "default_date_coords = (260, 259)"
definition default_signature_p2 :: coord where "default_signature_p2 = (230, 162)"
definition font_size :: int where "font_size = 9"
definition signature_width :: int where "signature_width = 120"
definition signature_height :: int where "signature_height = 30"
definition blank_image_width :: int where "blank_image_width = 80"
definition blank_image_height :: int where "blank_image_height = 10"
definition signature_width2 :: int where "signature_width2 = 160"
definition signature_height2 :: int where "signature_height2 = 20"

text \<open>\<^verbatim>\<open>letter[1]\<close>, the height of a US Letter page in points.\<close>

definition letter_height :: int where "letter_height = 792"

section \<open>Pages and errors\<close>

datatype error =
    ValueError string
  | FileNotFoundError string
  | IndexError
  | OtherError string

text \<open>What the canvas is asked to draw, in the order of the calls.\<close>

datatype draw_op =
    DrawImage string int int int int
  | SetFont string int
  | DrawString int int string

text \<open>
  A page of the reader: its own content, the outcome of \<^verbatim>\<open>extract_text()\<close> (an
  exception or the text), and the overlays merged on top of it so far.
\<close>

record 'a page =
  page_content :: 'a
  page_text :: "error + string"
  page_overlays :: "draw_op list list"

definition merge_page :: "'a page \<Rightarrow> draw_op list \<Rightarrow> 'a page" where
  "merge_page p overlay = p\<lparr>page_overlays := page_overlays p @ [overlay]\<rparr>"

section \<open>The marker locator\<close>

text \<open>
  The loop of \<^verbatim>\<open>find_text_coordinates\<close> over \<^verbatim>\<open>enumerate(lines)\<close>:
  \<open>i\<close> is the index of the first line of \<open>rest\<close> within \<open>lines\<close>.
\<close>

fun scan_lines :: "string \<Rightarrow> string list \<Rightarrow> nat \<Rightarrow> string list \<Rightarrow> coord option \<times> bool" where
  "scan_lines marker lines i [] = (None, False)"
| "scan_lines marker lines i (line # rest) =
     (if str_in (lower marker) (lower line) then
        (let y = letter_height - (int i + 1) * 20;
             x = 100;
             has_date =
               (if marker = DATE_MARKER then
                  (let current_line = strip line;
                       next_line = (if i + 1 < length lines then strip (lines ! (i + 1)) else [])
                   in re_search_date current_line \<or> re_search_date next_line)
                else False)
         in (Some (x, y), has_date))
      else scan_lines marker lines (i + 1) rest)"

text \<open>The body of the \<^verbatim>\<open>try\<close> block: an exception of the extraction leaves it.\<close>

definition find_text_coordinates_try ::
  "'a page \<Rightarrow> string \<Rightarrow> error + (coord option \<times> bool)" where
  "find_text_coordinates_try p marker =
     (case page_text p of
        Inl e \<Rightarrow> Inl e
      | Inr text_data \<Rightarrow>
          if text_data = [] then Inr (None, False)
          else (let lines = split_nl text_data in Inr (scan_lines marker lines 0 lines)))"

text \<open>The function with its handler \<^verbatim>\<open>except Exception: return None, False\<close>.\<close>

definition find_text_coordinates ::
  "'a page \<Rightarrow> string \<Rightarrow> error + (coord option \<times> bool)" where
  "find_text_coordinates p marker =
     (case find_text_coordinates_try p marker of
        Inl e \<Rightarrow> Inr (None, False)
      | Inr r \<Rightarrow> Inr r)"


section \<open>The overlay composer\<close>

text \<open>
  The overlay of page 1 (lines 133 to 148 of the source): the canvas calls, in order. The
  coordinates are floats in the source, all with integer values here
  (\<^verbatim>\<open>letter[1]\<close> is \<open>792.0\<close> and \<^verbatim>\<open>blank_image_height / 2\<close> is \<open>5.0\<close>),
  so they are modelled as integers.
\<close>

definition page0_overlay ::
  "'a page \<Rightarrow> string \<Rightarrow> string \<Rightarrow> string \<Rightarrow> error + draw_op list" where
  "page0_overlay page0 signature_img blank_img date_text =
     (case find_text_coordinates page0 SIGNATURE_MARKER of
        Inl e \<Rightarrow> Inl e
      | Inr (sig_found, _) \<Rightarrow>
     (case find_text_coordinates page0 DATE_MARKER of
        Inl e \<Rightarrow> Inl e
      | Inr (date_found, has_date) \<Rightarrow>
          (let sig_coords0 = (case sig_found of None \<Rightarrow> default_signature_coords | Some c \<Rightarrow> c);
               sig_coords0 = (fst sig_coords0 + 80, snd sig_coords0 - 10);
               date_coords = (case date_found of None \<Rightarrow> default_date_coords | Some c \<Rightarrow> c);
               date_coords = (fst date_coords + 80, snd date_coords - 10)
           in Inr (DrawImage signature_img (fst sig_coords0) (snd sig_coords0)
                     signature_width signature_height #
                   (if \<not> has_date then
                      (let date_y = snd date_coords + blank_image_height div 2
                       in [DrawImage blank_img (fst date_coords) (snd date_coords)
                             blank_image_width blank_image_height,
                           SetFont ''Helvetica'' font_size,
                           DrawString (fst date_coords) date_y date_text])
                    else [])))))"

text \<open>The overlay of page 2 (lines 157 to 163 of the source).\<close>

definition page1_overlay :: "'a page \<Rightarrow> string \<Rightarrow> error + draw_op list" where
  "page1_overlay page1 signature_img =
     (case find_text_coordinates page1 SIGNATURE_MARKER of
        Inl e \<Rightarrow> Inl e
      | Inr (sig_found, _) \<Rightarrow>
          (let sig_coords1 = (case sig_found of None \<Rightarrow> default_signature_p2 | Some c \<Rightarrow> c);
               sig_coords1 = (fst sig_coords1 + 80, snd sig_coords1 - 10)
           in Inr [DrawImage signature_img (fst sig_coords1) (snd sig_coords1)
                     signature_width2 signature_height2]))"

text \<open>\<^verbatim>\<open>xs[a:b]\<close> for indices that are not negative.\<close>

definition py_slice :: "'a list \<Rightarrow> nat \<Rightarrow> nat \<Rightarrow> 'a list" where
  "py_slice xs a b = drop a (take b xs)"

text \<open>
  \<^verbatim>\<open>add_signature_and_date\<close> on the pages of the reader; the result is the list of
  pages added to the writer, which is what is written to the output file. Indexing page 0 of
  a document without pages raises \<^verbatim>\<open>IndexError\<close>. Creating the canvas, drawing on it
  and merging are capabilities of the libraries and do not fail in the model.
\<close>

definition add_signature_and_date ::
  "'a page list \<Rightarrow> string \<Rightarrow> string \<Rightarrow> string \<Rightarrow> error + 'a page list" where
  "add_signature_and_date pages signature_img blank_img date_text =
     (let total = length pages;
          end_ix = min 19 total
      in case pages of
           [] \<Rightarrow> Inl IndexError
         | page0 # _ \<Rightarrow>
             (case page0_overlay page0 signature_img blank_img date_text of
                Inl e \<Rightarrow> Inl e
              | Inr overlay0 \<Rightarrow>
                  (let written0 = [merge_page page0 overlay0]
                   in if total > 1 then
                        (let page1 = pages ! 1
                         in case page1_overlay page1 signature_img of
                              Inl e \<Rightarrow> Inl e
                            | Inr overlay1 \<Rightarrow>
                                Inr (written0 @ [merge_page page1 overlay1] @
                                     py_slice pages 2 end_ix))
                      else Inr (written0 @ py_slice pages 1 end_ix))))"

section \<open>The converter and the run\<close>

text \<open>\<^verbatim>\<open>os.path.basename\<close>, the root of \<^verbatim>\<open>os.path.splitext\<close> and
  \<^verbatim>\<open>os.path.join\<close> on POSIX paths.\<close>

definition basename :: "string \<Rightarrow> string" where
  "basename p = rev (takeWhile (\<lambda>c. c \<noteq> CHR ''/'') (rev p))"

definition splitext_root :: "string \<Rightarrow> string" where
  "splitext_root b =
     (if CHR ''.'' \<in> set b then
        (let r = rev (tl (dropWhile (\<lambda>c. c \<noteq> CHR ''.'') (rev b)))
         in if list_ex (\<lambda>c. c \<noteq> CHR ''.'') r then r else b)
      else b)"

definition path_join :: "string \<Rightarrow> string \<Rightarrow> string" where
  "path_join a b =
     (if b \<noteq> [] \<and> hd b = CHR ''/'' then b
      else if a = [] \<or> last a = CHR ''/'' then a @ b
      else a @ ''/'' @ b)"

type_synonym filesystem = "string \<rightharpoonup> string"

text \<open>The \<^verbatim>\<open>CompletedProcess\<close> of \<^verbatim>\<open>subprocess.run\<close>.\<close>

record completed =
  returncode :: int
  stdout :: string
  stderr :: string

text \<open>
  The external converter is a parameter: started with a command line on a file system, it
  returns its exit status and captured output, and the file system it leaves.
\<close>

type_synonym runner = "string list \<Rightarrow> filesystem \<Rightarrow> completed \<times> filesystem"

definition soffice :: string where
  "soffice = ''/usr/lib/libreoffice/program/soffice''"

text \<open>What the run does to the outside, in order.\<close>

datatype event =
    FileWritten string
  | ConverterInvoked "string list"
  | ValueStored string
  | DataPushed string string

record world =
  store :: "string \<rightharpoonup> string"
  files :: filesystem
  events :: "event list"

definition log :: "event \<Rightarrow> world \<Rightarrow> world" where
  "log e w = w\<lparr>events := events w @ [e]\<rparr>"

text \<open>
  \<^verbatim>\<open>convert_xlsx_to_pdf\<close>: the converter runs on the files of the world; the step
  succeeds when the exit status is 0 and the expected file exists afterwards.
\<close>

definition convert_xlsx_to_pdf ::
  "runner \<Rightarrow> string \<Rightarrow> string \<Rightarrow> world \<Rightarrow> (error + string) \<times> world" where
  "convert_xlsx_to_pdf run xlsx_path out_dir w =
     (let base = splitext_root (basename xlsx_path);
          pdf_out = path_join out_dir (base @ ''.pdf'');
          cmd = [soffice, ''--headless'', ''--convert-to'', ''pdf'', ''--outdir'', out_dir,
                 xlsx_path];
          (result, fs') = run cmd (files w);
          w = log (ConverterInvoked cmd) (w\<lparr>files := fs'\<rparr>)
      in if returncode result = 0 \<and> files w pdf_out \<noteq> None then (Inr pdf_out, w)
         else (Inl (FileNotFoundError (''Conversion failed: '' @ stderr result)), w))"

text \<open>The input of the run: each key is absent or a string.\<close>

record actor_input =
  input_xlsx_key :: "string option"
  input_signature_key :: "string option"
  input_blank_image_key :: "string option"

text \<open>The capabilities of the run: the converter, the PDF parser and the PDF serialiser.\<close>

record 'a env =
  run_soffice :: runner
  read_pdf :: "string \<Rightarrow> error + 'a page list"
  write_pdf :: "'a page list \<Rightarrow> string"

text \<open>\<^verbatim>\<open>not data\<close> for a value of the store: missing, or empty.\<close>

definition falsy :: "string option \<Rightarrow> bool" where
  "falsy d = (case d of None \<Rightarrow> True | Some b \<Rightarrow> b = [])"

definition write_file :: "string \<Rightarrow> string \<Rightarrow> world \<Rightarrow> world" where
  "write_file path data w = log (FileWritten path) (w\<lparr>files := (files w)(path \<mapsto> data)\<rparr>)"

text \<open>Leaving the \<^verbatim>\<open>TemporaryDirectory\<close> block removes what is under the directory.\<close>

definition cleanup :: "string \<Rightarrow> world \<Rightarrow> world" where
  "cleanup temp_dir w =
     w\<lparr>files := (\<lambda>p. if prefix (path_join temp_dir []) p then None else files w p)\<rparr>"

text \<open>The body of the \<^verbatim>\<open>with tempfile.TemporaryDirectory()\<close> block of \<^verbatim>\<open>main\<close>.\<close>

definition main_body ::
  "'a env \<Rightarrow> string \<Rightarrow> string \<Rightarrow> string \<Rightarrow> string \<Rightarrow> string \<Rightarrow> string \<Rightarrow> world
     \<Rightarrow> (error + unit) \<times> world" where
  "main_body env temp_dir today_date xlsx_key xlsx_data signature_data blank_image_data w =
     (let xlsx_path = path_join temp_dir ''input.xlsx'';
          signature_path = path_join temp_dir ''signature.png'';
          blank_image_path = path_join temp_dir ''line.png'';
          output_pdf_path = path_join temp_dir ''output.pdf'';
          w = write_file xlsx_path xlsx_data w;
          w = write_file signature_path signature_data w;
          w = write_file blank_image_path blank_image_data w;
          (converted, w) = convert_xlsx_to_pdf (run_soffice env) xlsx_path temp_dir w
      in case converted of
           Inl e \<Rightarrow> (Inl e, w)
         | Inr pdf_path \<Rightarrow>
             (case files w pdf_path of
                None \<Rightarrow> (Inl (FileNotFoundError pdf_path), w)
              | Some pdf_data \<Rightarrow>
             (case read_pdf env pdf_data of
                Inl e \<Rightarrow> (Inl e, w)
              | Inr pages \<Rightarrow>
             (case add_signature_and_date pages signature_path blank_image_path today_date of
                Inl e \<Rightarrow> (Inl e, w)
              | Inr written \<Rightarrow>
                  (let output_data = write_pdf env written;
                       w = write_file output_pdf_path output_data w;
                       output_key = ''signed_'' @ xlsx_key @ ''.pdf'';
                       w = log (ValueStored output_key)
                             (w\<lparr>store := (store w)(output_key \<mapsto> output_data)\<rparr>);
                       w = log (DataPushed ''success'' output_key) w
                   in (Inr (), w))))))"

text \<open>
  \<^verbatim>\<open>main\<close>: the input is absent or a record of keys; \<open>temp_dir\<close> is the directory
  that \<^verbatim>\<open>TemporaryDirectory\<close> creates and \<open>today_date\<close> the date string of the run.
\<close>

definition main ::
  "'a env \<Rightarrow> string \<Rightarrow> string \<Rightarrow> actor_input option \<Rightarrow> world \<Rightarrow> (error + unit) \<times> world" where
  "main env temp_dir today_date inp w =
     (let input_data = (case inp of
                          None \<Rightarrow> \<lparr>input_xlsx_key = None, input_signature_key = None,
                                     input_blank_image_key = None\<rparr>
                        | Some d \<Rightarrow> d);
          signature_key = (case input_signature_key input_data of
                             None \<Rightarrow> ''signature.png'' | Some k \<Rightarrow> k);
          blank_image_key = (case input_blank_image_key input_data of
                               None \<Rightarrow> ''line.png'' | Some k \<Rightarrow> k);
          no_key = (Inl (ValueError ''No XLSX file key provided in input''), w);
          not_found = (Inl (FileNotFoundError
                              ''One or more input files not found in key-value store''), w)
      in case input_xlsx_key input_data of
           None \<Rightarrow> no_key
         | Some xlsx_key \<Rightarrow>
             if xlsx_key = [] then no_key
             else
               (let xlsx_data = store w xlsx_key;
                    signature_data = store w signature_key;
                    blank_image_data = store w blank_image_key
                in if falsy xlsx_data \<or> falsy signature_data \<or> falsy blank_image_data
                   then not_found
                   else
                     (case (xlsx_data, signature_data, blank_image_data) of
                        (Some xd, Some sd, Some bd) \<Rightarrow>
                          (let (r, w) = main_body env temp_dir today_date xlsx_key xd sd bd w
                           in (r, cleanup temp_dir w))
                      | _ \<Rightarrow> not_found)))"

section \<open>The wording of the specification\<close>

text \<open>
  A string of the shape \<^verbatim>\<open>\d{1,2}/\d{1,2}/\d{4}\<close>, and a string that contains such a
  substring between two word boundaries \<^verbatim>\<open>\b\<close>: since the substring starts and ends
  with a digit, the character before it and the character after it, if any, are not word
  characters.
\<close>

definition date_shaped :: "string \<Rightarrow> bool" where
  "date_shaped d \<longleftrightarrow>
     (\<exists>d1 d2 y. d = d1 @ ''/'' @ d2 @ ''/'' @ y \<and>
        list_all is_digit d1 \<and> (length d1 = 1 \<or> length d1 = 2) \<and>
        list_all is_digit d2 \<and> (length d2 = 1 \<or> length d2 = 2) \<and>
        list_all is_digit y \<and> length y = 4)"

definition contains_date :: "string \<Rightarrow> bool" where
  "contains_date s \<longleftrightarrow>
     (\<exists>pre d post. s = pre @ d @ post \<and> date_shaped d \<and>
        (pre = [] \<or> \<not> is_word (last pre)) \<and> (post = [] \<or> \<not> is_word (hd post)))"

text \<open>Case-insensitive containment of the marker in a line, as the specification words it.\<close>

definition ci_contains :: "string \<Rightarrow> string \<Rightarrow> bool" where
  "ci_contains marker line \<longleftrightarrow> (\<exists>ps ss. lower line = ps @ lower marker @ ss)"


section \<open>Properties of the strings\<close>

lemma str_in_sublist: "str_in xs ys = sublist xs ys"
  by (induction ys) (auto simp: sublist_Cons_right)

lemma str_in_iff: "str_in xs ys \<longleftrightarrow> (\<exists>ps ss. ys = ps @ xs @ ss)"
  by (simp add: str_in_sublist sublist_def)

lemma ci_contains_code [code]: "ci_contains marker line = str_in (lower marker) (lower line)"
  by (simp add: ci_contains_def str_in_iff)

lemma lower_append: "lower (a @ b) = lower a @ lower b"
  by (simp add: lower_def)

lemma split_nl_not_Nil: "split_nl s \<noteq> []"
  by (induction s) (auto split: list.splits)

lemma split_nl_replicate:
  "split_nl (replicate n (CHR 0x0A) @ s) = replicate n [] @ split_nl s"
  by (induction n) auto

section \<open>The date pattern matches what the specification describes\<close>

lemma is_space_not_word: "is_space c \<Longrightarrow> \<not> is_word c"
  by (auto simp: is_space_def is_word_def Let_def)

lemma is_space_not_digit: "is_space c \<Longrightarrow> \<not> is_digit c"
  by (auto simp: is_space_def is_digit_def Let_def)

lemma is_digit_word: "is_digit c \<Longrightarrow> is_word c"
  by (auto simp: is_digit_def is_word_def Let_def)

lemma m_digit_iff:
  "m_digit (p, s) = Some (q, r) \<longleftrightarrow> (\<exists>c. s = c # r \<and> is_digit c \<and> q = Some c)"
  by (cases s) auto

lemma m_char_iff:
  "m_char x (p, s) = Some (q, r) \<longleftrightarrow> (s = x # r \<and> q = Some x)"
  by (cases s) auto

lemma m_bound_iff:
  "m_bound (p, s) = Some (q, r) \<longleftrightarrow>
     (q = p \<and> r = s \<and> is_word_opt p \<noteq> is_word_opt (next_char s))"
  by (auto split: if_splits)

declare m_bound.simps [simp del]

lemma m_digits_iff:
  "m_digits n (p, s) = Some (q, r) \<longleftrightarrow>
     (\<exists>ds. s = ds @ r \<and> length ds = n \<and> list_all is_digit ds \<and>
           q = (if ds = [] then p else Some (last ds)))"
proof (induction n arbitrary: p s)
  case 0
  then show ?case by auto
next
  case (Suc n)
  show ?case
  proof
    assume "m_digits (Suc n) (p, s) = Some (q, r)"
    then obtain c s' where s: "s = c # s'" and c: "is_digit c"
      and rest: "m_digits n (Some c, s') = Some (q, r)"
      by (auto simp: bind_eq_Some_conv m_digit_iff)
    from rest Suc.IH obtain ds where ds: "s' = ds @ r" "length ds = n" "list_all is_digit ds"
      "q = (if ds = [] then Some c else Some (last ds))"
      by blast
    show "\<exists>ds. s = ds @ r \<and> length ds = Suc n \<and> list_all is_digit ds \<and>
           q = (if ds = [] then p else Some (last ds))"
      using s c ds by (intro exI[of _ "c # ds"]) auto
  next
    assume "\<exists>ds. s = ds @ r \<and> length ds = Suc n \<and> list_all is_digit ds \<and>
           q = (if ds = [] then p else Some (last ds))"
    then obtain ds where ds: "s = ds @ r" "length ds = Suc n" "list_all is_digit ds"
      "q = (if ds = [] then p else Some (last ds))" by blast
    then obtain c ds' where c: "ds = c # ds'" by (cases ds) auto
    have "m_digits n (Some c, ds' @ r) = Some (q, r)"
      using ds c by (subst Suc.IH) (intro exI[of _ ds'], auto)
    then show "m_digits (Suc n) (p, s) = Some (q, r)"
      using ds c by (auto simp: bind_eq_Some_conv m_digit_iff)
  qed
qed

lemma m_date_iff:
  assumes "0 < a" 
  shows "m_date a b (p, s) \<noteq> None \<longleftrightarrow>
     (\<exists>d1 d2 y r. s = d1 @ ''/'' @ d2 @ ''/'' @ y @ r \<and>
        list_all is_digit d1 \<and> length d1 = a \<and> list_all is_digit d2 \<and> length d2 = b \<and>
        list_all is_digit y \<and> length y = 4 \<and>
        \<not> is_word_opt p \<and> \<not> is_word_opt (next_char r))"
  (is "?L \<longleftrightarrow> ?R")
proof
  assume ?L
  then obtain q r where "m_date a b (p, s) = Some (q, r)" by auto
  then obtain q1 s1 q2 s2 q3 s3 q4 s4 q5 s5 q6 s6 where
    1: "m_bound (p, s) = Some (q1, s1)" and
    2: "m_digits a (q1, s1) = Some (q2, s2)" and
    3: "m_char (CHR ''/'') (q2, s2) = Some (q3, s3)" and
    4: "m_digits b (q3, s3) = Some (q4, s4)" and
    5: "m_char (CHR ''/'') (q4, s4) = Some (q5, s5)" and
    6: "m_digits 4 (q5, s5) = Some (q6, s6)" and
    7: "m_bound (q6, s6) = Some (q, r)"
    unfolding m_date_def by (auto simp: bind_eq_Some_conv)
  from 1 have b1: "q1 = p" "s1 = s" "is_word_opt p \<noteq> is_word_opt (next_char s)"
    by (auto simp: m_bound_iff)
  from 2 obtain d1 where d1: "s1 = d1 @ s2" "length d1 = a" "list_all is_digit d1"
    by (auto simp: m_digits_iff)
  from 3 have s2: "s2 = CHR ''/'' # s3" by (simp add: m_char_iff)
  from 4 obtain d2 where d2: "s3 = d2 @ s4" "length d2 = b" "list_all is_digit d2"
    by (auto simp: m_digits_iff)
  from 5 have s4: "s4 = CHR ''/'' # s5" by (simp add: m_char_iff)
  from 6 obtain y where y: "s5 = y @ s6" "length y = 4" "list_all is_digit y"
    "q6 = (if y = [] then q5 else Some (last y))"
    by (auto simp: m_digits_iff)
  from 7 have b7: "r = s6" "is_word_opt q6 \<noteq> is_word_opt (next_char s6)"
    by (auto simp: m_bound_iff)
  from d1 assms obtain c d1' where c: "d1 = c # d1'" "is_digit c" by (cases d1) auto
  have "s = c # d1' @ s2" using b1 d1 c by simp
  then have "is_word_opt (next_char s)" using c by (simp add: is_digit_word)
  then have p: "\<not> is_word_opt p" using b1 by simp
  have "y \<noteq> []" using y by auto
  then have "is_digit (last y)" using y(3) by (simp add: list_all_iff)
  then have "is_word_opt q6" using y \<open>y \<noteq> []\<close> by (simp add: is_digit_word)
  then have e: "\<not> is_word_opt (next_char s6)" using b7 by simp
  show ?R
    using b1 d1 s2 d2 s4 y p e
    by (intro exI[of _ d1] exI[of _ d2] exI[of _ y] exI[of _ s6]) simp
next
  assume ?R
  then obtain d1 d2 y r where
    s: "s = d1 @ ''/'' @ d2 @ ''/'' @ y @ r" and
    d1: "list_all is_digit d1" "length d1 = a" and
    d2: "list_all is_digit d2" "length d2 = b" and
    y: "list_all is_digit y" "length y = 4" and
    p: "\<not> is_word_opt p" and e: "\<not> is_word_opt (next_char r)"
    by blast
  from d1 assms obtain c d1' where c: "d1 = c # d1'" "is_digit c" by (cases d1) auto
  have yn: "y \<noteq> []" using y by auto
  then have ly: "is_digit (last y)" using y(1) by (simp add: list_all_iff)
  have 1: "m_bound (p, s) = Some (p, s)"
    using p c s by (simp add: m_bound_iff is_digit_word)
  have 2: "m_digits a (p, s) = Some (Some (last d1), ''/'' @ d2 @ ''/'' @ y @ r)"
    using d1 c s by (subst m_digits_iff) (intro exI[of _ d1], simp)
  have 3: "m_char (CHR ''/'') (Some (last d1), ''/'' @ d2 @ ''/'' @ y @ r)
            = Some (Some (CHR ''/''), d2 @ ''/'' @ y @ r)"
    by simp
  have 4: "m_digits b (Some (CHR ''/''), d2 @ ''/'' @ y @ r)
            = Some (if d2 = [] then Some (CHR ''/'') else Some (last d2), ''/'' @ y @ r)"
    using d2 by (subst m_digits_iff) (intro exI[of _ d2], simp)
  have 5: "m_char (CHR ''/'') (q, ''/'' @ y @ r) = Some (Some (CHR ''/''), y @ r)" for q
    by simp
  have 6: "m_digits 4 (Some (CHR ''/''), y @ r) = Some (Some (last y), r)"
    using y yn by (subst m_digits_iff) (intro exI[of _ y], simp)
  have 7: "m_bound (Some (last y), r) = Some (Some (last y), r)"
    using ly e by (simp add: m_bound_iff is_digit_word)
  show ?L
    unfolding m_date_def by (simp only: 1 2 3 4 5 6 7 Option.bind.simps) simp
qed


lemma date_at_iff:
  "date_at (p, s) \<longleftrightarrow>
     (\<exists>d r. s = d @ r \<and> date_shaped d \<and> \<not> is_word_opt p \<and> \<not> is_word_opt (next_char r))"
  (is "?L \<longleftrightarrow> ?R")
proof
  assume ?L
  then obtain a b where ab: "a = 1 \<or> a = 2" "b = 1 \<or> b = 2" "m_date a b (p, s) \<noteq> None"
    unfolding date_at_def by metis
  then have "0 < a" by auto
  from m_date_iff[OF this, of b p s] ab(3) obtain d1 d2 y r where
    "s = d1 @ ''/'' @ d2 @ ''/'' @ y @ r"
    "list_all is_digit d1" "length d1 = a" "list_all is_digit d2" "length d2 = b"
    "list_all is_digit y" "length y = 4" "\<not> is_word_opt p" "\<not> is_word_opt (next_char r)"
    by blast
  with ab(1,2) show ?R
    unfolding date_shaped_def
    by (intro exI[of _ "d1 @ ''/'' @ d2 @ ''/'' @ y"] exI[of _ r]) auto
next
  assume ?R
  then obtain d1 d2 y r where
    s: "s = d1 @ ''/'' @ d2 @ ''/'' @ y @ r" and
    d: "list_all is_digit d1" "length d1 = 1 \<or> length d1 = 2"
       "list_all is_digit d2" "length d2 = 1 \<or> length d2 = 2"
       "list_all is_digit y" "length y = 4" and
    pe: "\<not> is_word_opt p" "\<not> is_word_opt (next_char r)"
    unfolding date_shaped_def by auto
  have "0 < length d1" using d(2) by auto
  from m_date_iff[OF this, of "length d2" p s] s d pe
  have "m_date (length d1) (length d2) (p, s) \<noteq> None" by blast
  with d(2,4) show ?L
    unfolding date_at_def by (auto simp: numeral_2_eq_2)
qed

lemma search_from_iff:
  "search_from p s \<longleftrightarrow>
     (\<exists>pre d post. s = pre @ d @ post \<and> date_shaped d \<and>
        \<not> is_word_opt (if pre = [] then p else Some (last pre)) \<and>
        \<not> is_word_opt (next_char post))"
proof (induction s arbitrary: p)
  case Nil
  show ?case by (simp add: date_at_iff)
next
  case (Cons c s)
  show ?case (is "?L \<longleftrightarrow> ?R")
  proof
    assume ?L
    then consider "date_at (p, c # s)" | "search_from (Some c) s" by auto
    then show ?R
    proof cases
      case 1
      then obtain d r where "c # s = d @ r" "date_shaped d" "\<not> is_word_opt p"
        "\<not> is_word_opt (next_char r)" by (auto simp: date_at_iff)
      then show ?thesis by (intro exI[of _ "[]"] exI[of _ d] exI[of _ r]) simp
    next
      case 2
      then obtain pre d post where h: "s = pre @ d @ post" "date_shaped d"
        "\<not> is_word_opt (if pre = [] then Some c else Some (last pre))"
        "\<not> is_word_opt (next_char post)" using Cons.IH by blast
      then show ?thesis by (intro exI[of _ "c # pre"] exI[of _ d] exI[of _ post]) auto
    qed
  next
    assume ?R
    then obtain pre d post where h: "c # s = pre @ d @ post" "date_shaped d"
      "\<not> is_word_opt (if pre = [] then p else Some (last pre))"
      "\<not> is_word_opt (next_char post)" by blast
    show ?L
    proof (cases pre)
      case Nil
      with h have "date_at (p, c # s)" by (auto simp: date_at_iff)
      then show ?thesis by simp
    next
      case (Cons c' pre')
      with h have "s = pre' @ d @ post"
        "\<not> is_word_opt (if pre' = [] then Some c else Some (last pre'))" by auto
      with h(2,4) have "search_from (Some c) s" using Cons.IH by blast
      then show ?thesis by simp
    qed
  qed
qed

lemma re_search_date_iff: "re_search_date s \<longleftrightarrow> contains_date s"
proof -
  have a: "\<not> is_word_opt (if pre = [] then None else Some (last pre)) \<longleftrightarrow>
        (pre = [] \<or> \<not> is_word (last pre))" for pre by simp
  have b: "\<not> is_word_opt (next_char post) \<longleftrightarrow> (post = [] \<or> \<not> is_word (hd post))" for post
    by (cases post) auto
  show ?thesis
    unfolding re_search_date_def search_from_iff contains_date_def a b ..
qed

lemma date_shaped_ends:
  assumes "date_shaped d"
  shows "d \<noteq> []" "is_digit (hd d)" "is_digit (last d)"
proof -
  from assms obtain d1 d2 y where d: "d = d1 @ ''/'' @ d2 @ ''/'' @ y"
    "list_all is_digit d1" "length d1 = 1 \<or> length d1 = 2"
    "list_all is_digit y" "length y = 4"
    unfolding date_shaped_def by blast
  show "d \<noteq> []" using d by auto
  have "d1 \<noteq> []" using d(3) by auto
  then show "is_digit (hd d)" using d(1,2) by (cases d1) auto
  have "y \<noteq> []" using d(5) by auto
  then show "is_digit (last d)" using d(1,4) by (simp add: list_all_iff)
qed

lemma contains_date_Cons_space:
  assumes "is_space c"
  shows "contains_date (c # s) \<longleftrightarrow> contains_date s"
proof
  assume "contains_date (c # s)"
  then obtain pre d post where h: "c # s = pre @ d @ post" "date_shaped d"
    "pre = [] \<or> \<not> is_word (last pre)" "post = [] \<or> \<not> is_word (hd post)"
    unfolding contains_date_def by blast
  show "contains_date s"
  proof (cases pre)
    case Nil
    with h date_shaped_ends[OF h(2)] have "is_digit c" by (cases d) auto
    with assms show ?thesis by (simp add: is_space_not_digit)
  next
    case (Cons c' pre')
    with h have "s = pre' @ d @ post" "pre' = [] \<or> \<not> is_word (last pre')"
      by (auto split: if_splits)
    with h(2,4) show ?thesis unfolding contains_date_def by blast
  qed
next
  assume "contains_date s"
  then obtain pre d post where h: "s = pre @ d @ post" "date_shaped d"
    "pre = [] \<or> \<not> is_word (last pre)" "post = [] \<or> \<not> is_word (hd post)"
    unfolding contains_date_def by blast
  then show "contains_date (c # s)"
    unfolding contains_date_def using assms
    by (intro exI[of _ "c # pre"] exI[of _ d] exI[of _ post]) (auto simp: is_space_not_word)
qed

lemma contains_date_snoc_space:
  assumes "is_space c"
  shows "contains_date (s @ [c]) \<longleftrightarrow> contains_date s"
proof
  assume "contains_date (s @ [c])"
  then obtain pre d post where h: "s @ [c] = pre @ d @ post" "date_shaped d"
    "pre = [] \<or> \<not> is_word (last pre)" "post = [] \<or> \<not> is_word (hd post)"
    unfolding contains_date_def by blast
  show "contains_date s"
  proof (cases post rule: rev_cases)
    case Nil
    with h date_shaped_ends[OF h(2)] have "last (s @ [c]) = last d" by simp
    then have "is_digit c" using date_shaped_ends[OF h(2)] by simp
    with assms show ?thesis by (simp add: is_space_not_digit)
  next
    case (snoc post' c')
    with h have s: "s = pre @ d @ post'" by (metis append_assoc butlast_snoc)
    have "post' = [] \<or> \<not> is_word (hd post')" using h(4) snoc by (cases post') auto
    with s h(2,3) show ?thesis unfolding contains_date_def by blast
  qed
next
  assume "contains_date s"
  then obtain pre d post where h: "s = pre @ d @ post" "date_shaped d"
    "pre = [] \<or> \<not> is_word (last pre)" "post = [] \<or> \<not> is_word (hd post)"
    unfolding contains_date_def by blast
  then show "contains_date (s @ [c])"
    unfolding contains_date_def using assms
    by (intro exI[of _ pre] exI[of _ d] exI[of _ "post @ [c]"])
       (cases post, auto simp: is_space_not_word)
qed

lemma contains_date_prepend_spaces:
  "list_all is_space ws \<Longrightarrow> contains_date (ws @ s) \<longleftrightarrow> contains_date s"
  by (induction ws) (auto simp: contains_date_Cons_space)

lemma contains_date_append_spaces:
  "list_all is_space ws \<Longrightarrow> contains_date (s @ ws) \<longleftrightarrow> contains_date s"
proof (induction ws rule: rev_induct)
  case Nil
  then show ?case by simp
next
  case (snoc c ws)
  then have "contains_date ((s @ ws) @ [c]) \<longleftrightarrow> contains_date (s @ ws)"
    by (intro contains_date_snoc_space) simp
  with snoc show ?case by simp
qed

lemma strip_decomp:
  "\<exists>ws1 ws2. s = ws1 @ strip s @ ws2 \<and> list_all is_space ws1 \<and> list_all is_space ws2"
proof -
  let ?t = "dropWhile is_space s"
  have 1: "s = takeWhile is_space s @ ?t" by simp
  have "rev ?t = takeWhile is_space (rev ?t) @ dropWhile is_space (rev ?t)" by simp
  then have "?t = rev (dropWhile is_space (rev ?t)) @ rev (takeWhile is_space (rev ?t))"
    by (metis rev_append rev_rev_ident)
  then have 2: "?t = strip s @ rev (takeWhile is_space (rev ?t))"
    by (simp add: strip_def)
  have a: "list_all is_space (takeWhile is_space s)"
    by (simp add: list_all_iff) (meson set_takeWhileD)
  have b: "list_all is_space (rev (takeWhile is_space (rev ?t)))"
    by (simp add: list_all_iff) (meson set_takeWhileD)
  from 1 2 have "s = takeWhile is_space s @ strip s @ rev (takeWhile is_space (rev ?t))"
    by metis
  with a b show ?thesis by blast
qed

lemma contains_date_strip: "contains_date (strip s) \<longleftrightarrow> contains_date s"
proof -
  obtain ws1 ws2 where h: "s = ws1 @ strip s @ ws2" "list_all is_space ws1"
    "list_all is_space ws2" using strip_decomp by blast
  have "contains_date s \<longleftrightarrow> contains_date (ws1 @ strip s @ ws2)" using h(1) by simp
  also have "\<dots> \<longleftrightarrow> contains_date (strip s @ ws2)"
    using h(2) by (rule contains_date_prepend_spaces)
  also have "\<dots> \<longleftrightarrow> contains_date (strip s)"
    using h(3) by (rule contains_date_append_spaces)
  finally show ?thesis by simp
qed

lemma contains_date_code [code]: "contains_date s = re_search_date s"
  by (simp add: re_search_date_iff)

section \<open>The marker locator: what it returns\<close>

lemma re_search_date_Nil: "\<not> re_search_date []"
  by (simp add: re_search_date_iff contains_date_def date_shaped_def)

lemma scan_lines_none:
  "\<forall>l\<in>set rest. \<not> ci_contains marker l \<Longrightarrow> scan_lines marker lines i rest = (None, False)"
  by (induction rest arbitrary: i) (auto simp: ci_contains_code)

lemma scan_lines_first:
  assumes "k < length rest" "ci_contains marker (rest ! k)"
    "\<forall>j<k. \<not> ci_contains marker (rest ! j)"
  shows "scan_lines marker lines i rest =
     (Some (100, 792 - (int (i + k) + 1) * 20),
      marker = DATE_MARKER \<and>
        (contains_date (rest ! k) \<or>
         (i + k + 1 < length lines \<and> contains_date (lines ! (i + k + 1)))))"
  using assms
proof (induction rest arbitrary: i k)
  case Nil
  then show ?case by simp
next
  case (Cons line rest)
  show ?case
  proof (cases k)
    case 0
    with Cons.prems show ?thesis
      by (simp add: ci_contains_code letter_height_def re_search_date_iff
            contains_date_strip re_search_date_Nil[unfolded re_search_date_iff])
  next
    case (Suc k')
    with Cons.prems have a: "k' < length rest" "ci_contains marker (rest ! k')"
      "\<forall>j<k'. \<not> ci_contains marker (rest ! j)" "\<not> ci_contains marker line"
      by auto
    from Cons.IH[OF a(1,2,3), of "i + 1"] a(4) Suc show ?thesis
      by (simp add: ci_contains_code)
  qed
qed

lemma find_text_coordinates_text:
  "page_text p = Inr t \<Longrightarrow> t \<noteq> [] \<Longrightarrow>
     find_text_coordinates p marker = Inr (scan_lines marker (split_nl t) 0 (split_nl t))"
  by (simp add: find_text_coordinates_def find_text_coordinates_try_def Let_def)

lemma find_text_coordinates_no_text:
  "page_text p = Inl e \<or> page_text p = Inr [] \<Longrightarrow>
     find_text_coordinates p marker = Inr (None, False)"
  by (auto simp: find_text_coordinates_def find_text_coordinates_try_def)

lemma find_text_coordinates_returns: "\<exists>r. find_text_coordinates p marker = Inr r"
  by (auto simp: find_text_coordinates_def split: sum.splits)

lemma first_match_exists:
  "\<exists>l\<in>set ls. P l \<Longrightarrow> \<exists>i<length ls. P (ls ! i) \<and> (\<forall>j<i. \<not> P (ls ! j))"
proof -
  assume "\<exists>l\<in>set ls. P l"
  then obtain n where n: "n < length ls \<and> P (ls ! n)" by (auto simp: in_set_conv_nth)
  define i where "i = (LEAST n. n < length ls \<and> P (ls ! n))"
  have "i < length ls \<and> P (ls ! i)" unfolding i_def using n by (rule LeastI)
  moreover have "\<forall>j<i. \<not> P (ls ! j)"
  proof (intro allI impI)
    fix j assume "j < i"
    then have "\<not> (j < length ls \<and> P (ls ! j))" unfolding i_def by (rule not_less_Least)
    moreover have "j < length ls" using \<open>j < i\<close> \<open>i < length ls \<and> P (ls ! i)\<close> by simp
    ultimately show "\<not> P (ls ! j)" by simp
  qed
  ultimately show ?thesis by blast
qed

lemma ci_contains_upper_signature:
  "l = a @ ''SIGNATURE:'' @ b \<Longrightarrow> ci_contains SIGNATURE_MARKER l"
proof -
  assume l: "l = a @ ''SIGNATURE:'' @ b"
  have "lower ''SIGNATURE:'' = lower SIGNATURE_MARKER" by code_simp
  then have "lower l = lower a @ lower SIGNATURE_MARKER @ lower b"
    using l by (simp only: lower_append)
  then show ?thesis unfolding ci_contains_def by blast
qed

text \<open>
  Claim C2. The locator looks for the marker in each line, in order, ignoring case. With
  \<open>split_nl t\<close> the lines of a non-empty extracted text \<open>t\<close>: if no line contains the marker
  the result is \<open>(None, False)\<close>; if line \<open>i\<close> (counted from 0) is the first that contains
  it, the coordinate is \<open>(100, 792 - (i + 1) * 20)\<close>; and a page with a line that contains
  \<open>SIGNATURE:\<close> yields a coordinate for the marker \<open>Signature:\<close>. An empty extracted text
  has no lines to search, and the result is \<open>(None, False)\<close>; for a marker that is not empty
  this is also what the search of its single empty piece would give.
\<close>

theorem find_text_coordinates_locates:
  assumes "page_text p = Inr t"
  shows "(t = [] \<longrightarrow> find_text_coordinates p marker = Inr (None, False) \<and>
            (marker \<noteq> [] \<longrightarrow> (\<forall>l\<in>set (split_nl t). \<not> ci_contains marker l))) \<and>
         (t \<noteq> [] \<longrightarrow>
           ((\<forall>l\<in>set (split_nl t). \<not> ci_contains marker l) \<longrightarrow>
              find_text_coordinates p marker = Inr (None, False)) \<and>
           (\<forall>i. i < length (split_nl t) \<and> ci_contains marker (split_nl t ! i) \<and>
                (\<forall>j<i. \<not> ci_contains marker (split_nl t ! j)) \<longrightarrow>
                (\<exists>has_date. find_text_coordinates p marker =
                    Inr (Some (100, 792 - (int i + 1) * 20), has_date))) \<and>
           ((\<exists>l\<in>set (split_nl t). \<exists>a b. l = a @ ''SIGNATURE:'' @ b) \<longrightarrow>
              (\<exists>c has_date. find_text_coordinates p SIGNATURE_MARKER = Inr (Some c, has_date))))"
proof (intro conjI impI allI)
  assume "t = []"
  then show "find_text_coordinates p marker = Inr (None, False)"
    using assms find_text_coordinates_no_text[of p _ marker] by simp
next
  assume "t = []" and "marker \<noteq> []"
  then show "\<forall>l\<in>set (split_nl t). \<not> ci_contains marker l"
    by (simp add: ci_contains_def lower_def)
next
  assume "t \<noteq> []" and "\<forall>l\<in>set (split_nl t). \<not> ci_contains marker l"
  then show "find_text_coordinates p marker = Inr (None, False)"
    using assms by (simp add: find_text_coordinates_text scan_lines_none)
next
  fix i
  assume "t \<noteq> []" and
    "i < length (split_nl t) \<and> ci_contains marker (split_nl t ! i) \<and>
     (\<forall>j<i. \<not> ci_contains marker (split_nl t ! j))"
  then show "\<exists>has_date. find_text_coordinates p marker =
                  Inr (Some (100, 792 - (int i + 1) * 20), has_date)"
    using assms scan_lines_first[of i "split_nl t" marker "split_nl t" 0]
    by (simp add: find_text_coordinates_text)
next
  assume t: "t \<noteq> []" and "\<exists>l\<in>set (split_nl t). \<exists>a b. l = a @ ''SIGNATURE:'' @ b"
  then have "\<exists>l\<in>set (split_nl t). ci_contains SIGNATURE_MARKER l"
    using ci_contains_upper_signature by blast
  from first_match_exists[OF this] obtain i where
    "i < length (split_nl t)" "ci_contains SIGNATURE_MARKER (split_nl t ! i)"
    "\<forall>j<i. \<not> ci_contains SIGNATURE_MARKER (split_nl t ! j)" by blast
  then show "\<exists>c has_date. find_text_coordinates p SIGNATURE_MARKER = Inr (Some c, has_date)"
    using assms t scan_lines_first[of i "split_nl t" SIGNATURE_MARKER "split_nl t" 0]
    by (simp add: find_text_coordinates_text)
qed

theorem find_text_coordinates_locates_witness:
  "find_text_coordinates
     \<lparr>page_content = (), page_text = Inr (''Name'' @ [CHR 0x0A] @ ''SIGNATURE:''),
      page_overlays = []\<rparr> ''Total'' = Inr (None, False) \<and>
   (\<exists>has_date. find_text_coordinates
     \<lparr>page_content = (), page_text = Inr (''Name'' @ [CHR 0x0A] @ ''SIGNATURE:''),
      page_overlays = []\<rparr> ''Signature:'' = Inr (Some (100, 752), has_date))"
proof -
  let ?t = "''Name'' @ [CHR 0x0A] @ ''SIGNATURE:''"
  let ?p = "\<lparr>page_content = (), page_text = Inr ?t, page_overlays = []\<rparr>"
  have 1: "page_text ?p = Inr ?t" by simp
  have 2: "?t \<noteq> []" by simp
  have ls: "split_nl ?t = [''Name'', ''SIGNATURE:'']" by simp
  have a: "\<not> ci_contains ''Total'' ''Name''" "\<not> ci_contains ''Total'' ''SIGNATURE:''"
    "\<not> ci_contains ''Signature:'' ''Name''" "ci_contains ''Signature:'' ''SIGNATURE:''"
    by code_simp+
  have n: "\<forall>l\<in>set (split_nl ?t). \<not> ci_contains ''Total'' l"
    unfolding ls using a by simp
  have f: "1 < length (split_nl ?t) \<and> ci_contains ''Signature:'' (split_nl ?t ! 1) \<and>
           (\<forall>j<1. \<not> ci_contains ''Signature:'' (split_nl ?t ! j))"
    unfolding ls using a by simp
  from find_text_coordinates_locates[OF 1, of "''Total''"] 2 n
  have r1: "find_text_coordinates ?p ''Total'' = Inr (None, False)" by blast
  from find_text_coordinates_locates[OF 1, of "''Signature:''"] 2 f
  have "\<exists>has_date. find_text_coordinates ?p ''Signature:'' =
          Inr (Some (100, 792 - (int 1 + 1) * 20), has_date)" by blast
  then have r2: "\<exists>has_date. find_text_coordinates ?p ''Signature:'' =
          Inr (Some (100, 752), has_date)" by simp
  from r1 r2 show ?thesis by blast
qed

text \<open>
  Claim C3. When the marker is the date marker and line \<open>i\<close> is the first line that contains
  it, the flag returned is true exactly when that line, or the line after it if there is one,
  contains a substring of the shape \<open>\d{1,2}/\d{1,2}/\d{4}\<close> between word boundaries; when
  line \<open>i\<close> is the last line, only that line counts. The source strips both lines before it
  searches them, which does not change the answer.
\<close>

theorem date_already_present_iff:
  assumes "page_text p = Inr t" and "t \<noteq> []"
    and "i < length (split_nl t)"
    and "ci_contains DATE_MARKER (split_nl t ! i)"
    and "\<forall>j<i. \<not> ci_contains DATE_MARKER (split_nl t ! j)"
  shows "find_text_coordinates p DATE_MARKER =
           Inr (Some (100, 792 - (int i + 1) * 20),
                contains_date (split_nl t ! i) \<or>
                (i + 1 < length (split_nl t) \<and> contains_date (split_nl t ! (i + 1)))) \<and>
         (i + 1 = length (split_nl t) \<longrightarrow>
            find_text_coordinates p DATE_MARKER =
              Inr (Some (100, 792 - (int i + 1) * 20), contains_date (split_nl t ! i)))"
  using assms scan_lines_first[of i "split_nl t" DATE_MARKER "split_nl t" 0]
  by (simp add: find_text_coordinates_text)

theorem date_already_present_iff_witness:
  "find_text_coordinates
     \<lparr>page_content = (), page_text = Inr (''x'' @ [CHR 0x0A] @ ''DATE:'' @ [CHR 0x0A] @ '' 1/2/2024 ''),
      page_overlays = []\<rparr> DATE_MARKER = Inr (Some (100, 752), True)"
proof -
  let ?t = "''x'' @ [CHR 0x0A] @ ''DATE:'' @ [CHR 0x0A] @ '' 1/2/2024 ''"
  let ?p = "\<lparr>page_content = (), page_text = Inr ?t, page_overlays = []\<rparr>"
  have 1: "page_text ?p = Inr ?t" by simp
  have 2: "?t \<noteq> []" by simp
  have ls: "split_nl ?t = [''x'', ''DATE:'', '' 1/2/2024 '']" by simp
  have a: "\<not> ci_contains DATE_MARKER ''x''" "ci_contains DATE_MARKER ''DATE:''"
    "\<not> contains_date ''DATE:''" "contains_date '' 1/2/2024 ''"
    by code_simp+
  have 3: "1 < length (split_nl ?t)" unfolding ls by simp
  have 4: "ci_contains DATE_MARKER (split_nl ?t ! 1)" unfolding ls using a by simp
  have 5: "\<forall>j<1. \<not> ci_contains DATE_MARKER (split_nl ?t ! j)" unfolding ls using a by simp
  from date_already_present_iff[OF 1 2 3 4 5] show ?thesis
    unfolding ls using a by simp
qed

section \<open>The overlays\<close>

lemma page0_overlay_eq:
  assumes "find_text_coordinates p SIGNATURE_MARKER = Inr (sf, h1)"
    and "find_text_coordinates p DATE_MARKER = Inr (df, h2)"
  shows "page0_overlay p s b d =
     Inr (DrawImage s (fst (case sf of None \<Rightarrow> (250, 293) | Some c \<Rightarrow> c) + 80)
                      (snd (case sf of None \<Rightarrow> (250, 293) | Some c \<Rightarrow> c) - 10) 120 30 #
          (if h2 then []
           else [DrawImage b (fst (case df of None \<Rightarrow> (260, 259) | Some c \<Rightarrow> c) + 80)
                             (snd (case df of None \<Rightarrow> (260, 259) | Some c \<Rightarrow> c) - 10) 80 10,
                 SetFont ''Helvetica'' 9,
                 DrawString (fst (case df of None \<Rightarrow> (260, 259) | Some c \<Rightarrow> c) + 80)
                            (snd (case df of None \<Rightarrow> (260, 259) | Some c \<Rightarrow> c) - 10 + 5) d]))"
  using assms
  by (simp add: page0_overlay_def Let_def default_signature_coords_def default_date_coords_def
        signature_width_def signature_height_def blank_image_width_def blank_image_height_def
        font_size_def split: option.splits)

lemma page1_overlay_eq:
  assumes "find_text_coordinates p SIGNATURE_MARKER = Inr (sf, h1)"
  shows "page1_overlay p s =
     Inr [DrawImage s (fst (case sf of None \<Rightarrow> (230, 162) | Some c \<Rightarrow> c) + 80)
                      (snd (case sf of None \<Rightarrow> (230, 162) | Some c \<Rightarrow> c) - 10) 160 20]"
  using assms
  by (simp add: page1_overlay_def Let_def default_signature_p2_def
        signature_width2_def signature_height2_def split: option.splits)

text \<open>
  Claim C7. The locator always returns a result and never an exception. When the extraction
  raises, or the extracted text is empty, the result is \<open>(None, False)\<close>, and the composer
  then draws at the default coordinates shifted by \<open>(+80, -10)\<close>: on page 1 the signature at
  \<open>(330, 283)\<close>, the blank filler at \<open>(340, 249)\<close> and the date text at \<open>(340, 254)\<close>; on
  page 2 the signature at \<open>(310, 152)\<close>.
\<close>

theorem find_text_coordinates_never_raises:
  "(\<exists>r. find_text_coordinates p marker = Inr r) \<and>
   ((\<exists>e. page_text p = Inl e) \<or> page_text p = Inr [] \<longrightarrow>
      find_text_coordinates p marker = Inr (None, False) \<and>
      page0_overlay p s b d =
        Inr [DrawImage s 330 283 120 30, DrawImage b 340 249 80 10,
             SetFont ''Helvetica'' 9, DrawString 340 254 d] \<and>
      page1_overlay p s = Inr [DrawImage s 310 152 160 20])"
proof (intro conjI impI)
  show "\<exists>r. find_text_coordinates p marker = Inr r"
    by (rule find_text_coordinates_returns)
next
  assume h: "(\<exists>e. page_text p = Inl e) \<or> page_text p = Inr []"
  then have n: "find_text_coordinates p m = Inr (None, False)" for m
    using find_text_coordinates_no_text[of p _ m] by blast
  show "find_text_coordinates p marker = Inr (None, False)" by (rule n)
  show "page0_overlay p s b d =
        Inr [DrawImage s 330 283 120 30, DrawImage b 340 249 80 10,
             SetFont ''Helvetica'' 9, DrawString 340 254 d]"
    using page0_overlay_eq[OF n n, of s b d] by simp
  show "page1_overlay p s = Inr [DrawImage s 310 152 160 20]"
    using page1_overlay_eq[OF n, of s] by simp
qed

theorem find_text_coordinates_never_raises_witness:
  "find_text_coordinates
     \<lparr>page_content = (), page_text = Inl (OtherError ''broken stream''), page_overlays = []\<rparr>
     ''Date:'' = Inr (None, False) \<and>
   page1_overlay
     \<lparr>page_content = (), page_text = Inl (OtherError ''broken stream''), page_overlays = []\<rparr>
     ''sig.png'' = Inr [DrawImage ''sig.png'' 310 152 160 20]"
proof -
  let ?p = "\<lparr>page_content = (), page_text = Inl (OtherError ''broken stream''),
             page_overlays = []\<rparr>"
  have h: "(\<exists>e. page_text ?p = Inl e) \<or> page_text ?p = Inr []" by simp
  from find_text_coordinates_never_raises[of ?p "''Date:''" "''sig.png''"] h
  show ?thesis by blast
qed

text \<open>
  Claim C10. When the first line that contains the marker has index \<open>i \<ge> 39\<close>, the
  y-coordinate \<open>792 - (i + 1) * 20\<close> that the locator returns is at most \<open>-8\<close>, so negative;
  nothing clamps it: for the signature marker on page 1 the image is drawn at that y minus 10.
\<close>

theorem coordinate_below_page:
  assumes "page_text p = Inr t" and "t \<noteq> []"
    and "i < length (split_nl t)"
    and "ci_contains marker (split_nl t ! i)"
    and "\<forall>j<i. \<not> ci_contains marker (split_nl t ! j)"
    and "39 \<le> i"
  shows "\<exists>y has_date. find_text_coordinates p marker = Inr (Some (100, y), has_date) \<and>
           y = 792 - (int i + 1) * 20 \<and> y \<le> - 8 \<and> y < 0 \<and>
           (marker = SIGNATURE_MARKER \<longrightarrow>
              (\<exists>ops. page0_overlay p s b d = Inr (DrawImage s 180 (y - 10) 120 30 # ops)))"
proof -
  let ?y = "792 - (int i + 1) * 20"
  obtain h where f: "find_text_coordinates p marker = Inr (Some (100, ?y), h)"
    using assms scan_lines_first[of i "split_nl t" marker "split_nl t" 0]
    by (simp add: find_text_coordinates_text)
  have y: "?y \<le> - 8" "?y < 0" using assms(6) by auto
  have "\<exists>ops. page0_overlay p s b d = Inr (DrawImage s 180 (?y - 10) 120 30 # ops)"
    if m: "marker = SIGNATURE_MARKER"
  proof -
    obtain df h2 where g: "find_text_coordinates p DATE_MARKER = Inr (df, h2)"
      using find_text_coordinates_returns[of p DATE_MARKER] by auto
    from page0_overlay_eq[OF f[unfolded m] g, of s b d] show ?thesis by simp
  qed
  with f y show ?thesis by blast
qed

theorem coordinate_below_page_witness:
  "\<exists>has_date. find_text_coordinates
     \<lparr>page_content = (), page_text = Inr (replicate 39 (CHR 0x0A) @ ''Signature:''),
      page_overlays = []\<rparr> SIGNATURE_MARKER = Inr (Some (100, - 8), has_date)"
proof -
  let ?t = "replicate 39 (CHR 0x0A) @ ''Signature:''"
  let ?p = "\<lparr>page_content = (), page_text = Inr ?t, page_overlays = []\<rparr>"
  have 1: "page_text ?p = Inr ?t" by simp
  have 2: "?t \<noteq> []" by simp
  have ls: "split_nl ?t = replicate 39 [] @ [''Signature:'']"
    by (simp only: split_nl_replicate) simp
  have a: "ci_contains SIGNATURE_MARKER ''Signature:''" "\<not> ci_contains SIGNATURE_MARKER []"
    by code_simp+
  have 3: "39 < length (split_nl ?t)" unfolding ls by simp
  have 4: "ci_contains SIGNATURE_MARKER (split_nl ?t ! 39)"
    unfolding ls using a by (simp add: nth_append)
  have 5: "\<forall>j<39. \<not> ci_contains SIGNATURE_MARKER (split_nl ?t ! j)"
    unfolding ls using a by (simp add: nth_append)
  have 6: "(39::nat) \<le> 39" by simp
  from coordinate_below_page[OF 1 2 3 4 5 6, of "''s''" "''b''" "''d''"]
  show ?thesis by auto
qed

lemma page0_overlay_returns: "\<exists>ov. page0_overlay p s b d = Inr ov"
proof -
  obtain sf h1 where 1: "find_text_coordinates p SIGNATURE_MARKER = Inr (sf, h1)"
    using find_text_coordinates_returns[of p SIGNATURE_MARKER] by auto
  obtain df h2 where 2: "find_text_coordinates p DATE_MARKER = Inr (df, h2)"
    using find_text_coordinates_returns[of p DATE_MARKER] by auto
  from page0_overlay_eq[OF 1 2] show ?thesis by blast
qed

lemma page1_overlay_returns: "\<exists>ov. page1_overlay p s = Inr ov"
proof -
  obtain sf h1 where 1: "find_text_coordinates p SIGNATURE_MARKER = Inr (sf, h1)"
    using find_text_coordinates_returns[of p SIGNATURE_MARKER] by auto
  from page1_overlay_eq[OF 1] show ?thesis by blast
qed

section \<open>Assembly of the output document\<close>

lemma add_signature_and_date_Nil: "add_signature_and_date [] s b d = Inl IndexError"
  by (simp add: add_signature_and_date_def)

lemma add_signature_and_date_one:
  "page0_overlay p0 s b d = Inr ov0 \<Longrightarrow>
     add_signature_and_date [p0] s b d = Inr [merge_page p0 ov0]"
  by (simp add: add_signature_and_date_def py_slice_def)

lemma add_signature_and_date_many:
  "page0_overlay p0 s b d = Inr ov0 \<Longrightarrow> page1_overlay p1 s = Inr ov1 \<Longrightarrow>
     add_signature_and_date (p0 # p1 # rest) s b d =
       Inr (merge_page p0 ov0 # merge_page p1 ov1 # take 17 rest)"
  by (simp add: add_signature_and_date_def py_slice_def Let_def min_def)

lemma page_content_merge_page: "page_content (merge_page p ov) = page_content p"
  by (simp add: merge_page_def)

lemma add_signature_and_date_shape:
  assumes "pages \<noteq> []"
  shows "\<exists>ov0 ov1. page0_overlay (hd pages) s b d = Inr ov0 \<and>
           (2 \<le> length pages \<longrightarrow> page1_overlay (pages ! 1) s = Inr ov1) \<and>
           add_signature_and_date pages s b d =
             Inr (merge_page (hd pages) ov0 #
                  (if 2 \<le> length pages then merge_page (pages ! 1) ov1 # take 17 (drop 2 pages)
                   else []))"
proof -
  from assms obtain p0 rest where p: "pages = p0 # rest" by (cases pages) auto
  obtain ov0 where 0: "page0_overlay p0 s b d = Inr ov0"
    using page0_overlay_returns by blast
  show ?thesis
  proof (cases rest)
    case Nil
    with p 0 add_signature_and_date_one[OF 0] show ?thesis by auto
  next
    case (Cons p1 rest')
    obtain ov1 where 1: "page1_overlay p1 s = Inr ov1"
      using page1_overlay_returns by blast
    from add_signature_and_date_many[OF 0 1, of rest'] p Cons 0 1 show ?thesis by auto
  qed
qed

text \<open>
  Claim C1, amended. For every source document with at least one page, the output document
  has \<open>min (number of source pages) 19\<close> pages, in the order of the source: its pages are
  the first 19 source pages (the first two with an overlay merged, the others unchanged). A
  19-page input keeps all its pages, a 20-page input loses only the last one, and a 1-page
  input gives exactly one page.
\<close>

theorem output_page_count:
  assumes "pages \<noteq> []"
  shows "\<exists>out. add_signature_and_date pages s b d = Inr out \<and>
           length out = min (length pages) 19 \<and>
           map page_content out = take 19 (map page_content pages) \<and>
           (\<forall>i. 2 \<le> i \<and> i < length out \<longrightarrow> out ! i = pages ! i) \<and>
           (length pages = 19 \<longrightarrow> map page_content out = map page_content pages) \<and>
           (length pages = 20 \<longrightarrow> map page_content out = butlast (map page_content pages)) \<and>
           (length pages = 1 \<longrightarrow> length out = 1)"
proof -
  from add_signature_and_date_shape[OF assms, of s b d] obtain ov0 ov1 where
    out: "add_signature_and_date pages s b d =
             Inr (merge_page (hd pages) ov0 #
                  (if 2 \<le> length pages then merge_page (pages ! 1) ov1 # take 17 (drop 2 pages)
                   else []))" by blast
  define out where "out = merge_page (hd pages) ov0 #
                  (if 2 \<le> length pages then merge_page (pages ! 1) ov1 # take 17 (drop 2 pages)
                   else [])"
  from assms obtain p0 rest where p: "pages = p0 # rest" by (cases pages) auto
  have len: "length out = min (length pages) 19"
    unfolding out_def using p by (cases rest) auto
  have cont: "map page_content out = take 19 (map page_content pages)"
  proof (cases rest)
    case Nil
    with p show ?thesis unfolding out_def by (simp add: page_content_merge_page)
  next
    case (Cons p1 rest')
    have "take 19 (map page_content (p0 # p1 # rest')) =
          page_content p0 # page_content p1 # take 17 (map page_content rest')"
      by (simp add: take_Cons')
    with p Cons show ?thesis
      unfolding out_def by (simp add: page_content_merge_page take_map)
  qed
  have same: "out ! i = pages ! i" if "2 \<le> i" "i < length out" for i
  proof (cases rest)
    case Nil
    with p that show ?thesis unfolding out_def by simp
  next
    case (Cons p1 rest')
    from that obtain k where k: "i = Suc (Suc k)" by (metis Suc_le_D numeral_2_eq_2 Suc_le_mono)
    with that p Cons show ?thesis unfolding out_def by simp
  qed
  have b19: "map page_content out = map page_content pages" if "length pages = 19"
    using cont that by simp
  have b20: "map page_content out = butlast (map page_content pages)" if "length pages = 20"
    using cont that by (simp add: butlast_conv_take)
  have b1: "length out = 1" if "length pages = 1"
    using len that by simp
  from out len cont same b19 b20 b1 show ?thesis
    unfolding out_def[symmetric] by blast
qed


theorem output_page_count_witness:
  "[\<lparr>page_content = (1::nat), page_text = Inr ''Signature:'', page_overlays = []\<rparr>] \<noteq> [] \<and>
   (\<exists>out. add_signature_and_date
      [\<lparr>page_content = (1::nat), page_text = Inr ''Signature:'', page_overlays = []\<rparr>]
      ''signature.png'' ''line.png'' ''11/04/2026'' = Inr out \<and>
      length out = 1 \<and> map page_content out = [1])"
proof -
  let ?ps = "[\<lparr>page_content = (1::nat), page_text = Inr ''Signature:'', page_overlays = []\<rparr>]"
  have h: "?ps \<noteq> []" by simp
  from output_page_count[OF h, of "''signature.png''" "''line.png''" "''11/04/2026''"]
  show ?thesis by auto
qed

text \<open>
  The claim as stated, for every source document, fails for a document without pages: the
  source indexes page 0 first, which raises \<^verbatim>\<open>IndexError\<close>, so no output document
  with \<open>min 0 19 = 0\<close> pages is written.
\<close>

theorem output_page_count_counterexample:
  "add_signature_and_date ([] :: nat page list) ''signature.png'' ''line.png'' ''11/04/2026''
     = Inl IndexError \<and>
   add_signature_and_date ([] :: nat page list) ''signature.png'' ''line.png'' ''11/04/2026''
     \<noteq> Inr []"
  by (simp add: add_signature_and_date_def)

lemma scan_lines_None_flag: "scan_lines marker lines i rest = (None, h) \<Longrightarrow> \<not> h"
  by (induction rest arbitrary: i) (auto simp: Let_def split: if_splits)

lemma find_text_coordinates_None_flag:
  "find_text_coordinates p marker = Inr (None, h) \<Longrightarrow> \<not> h"
  by (auto simp: find_text_coordinates_def find_text_coordinates_try_def Let_def
        split: sum.splits if_splits dest: scan_lines_None_flag)

text \<open>
  Claim C4. On page 1, with \<open>(x, y)\<close> the date coordinate after the adjustment: if the locator
  reports a date already present, the overlay holds the signature image only, so neither the
  blank filler nor the date text is drawn; otherwise the blank filler is drawn at \<open>(x, y)\<close>
  with size 80 by 10 and the date text at \<open>(x, y + 5)\<close> in a 9-point font.
\<close>

theorem page1_date_drawing:
  assumes "find_text_coordinates p DATE_MARKER = Inr (found, has_date)"
    and "c = (case found of None \<Rightarrow> (260, 259) | Some c \<Rightarrow> c)"
    and "x = fst c + 80" and "y = snd c - 10"
  shows "\<exists>ov sx sy rest_out.
           add_signature_and_date (p # rest) s b d = Inr (merge_page p ov # rest_out) \<and>
           (has_date \<longrightarrow> ov = [DrawImage s sx sy 120 30]) \<and>
           (\<not> has_date \<longrightarrow>
              ov = [DrawImage s sx sy 120 30, DrawImage b x y 80 10,
                    SetFont ''Helvetica'' 9, DrawString x (y + 5) d])"
proof -
  obtain sf h1 where 1: "find_text_coordinates p SIGNATURE_MARKER = Inr (sf, h1)"
    using find_text_coordinates_returns[of p SIGNATURE_MARKER] by auto
  note ov = page0_overlay_eq[OF 1 assms(1), of s b d]
  from add_signature_and_date_shape[of "p # rest" s b d] obtain ov0 rest_out where
    "page0_overlay p s b d = Inr ov0"
    "add_signature_and_date (p # rest) s b d = Inr (merge_page p ov0 # rest_out)"
    by auto
  with ov assms(2,3,4) show ?thesis by auto
qed

theorem page1_date_drawing_witness:
  "\<exists>sx sy rest_out.
     add_signature_and_date
       [\<lparr>page_content = (1::nat), page_text = Inr ''Date:'', page_overlays = []\<rparr>]
       ''signature.png'' ''line.png'' ''11/04/2026'' =
     Inr (merge_page \<lparr>page_content = (1::nat), page_text = Inr ''Date:'', page_overlays = []\<rparr>
            [DrawImage ''signature.png'' sx sy 120 30, DrawImage ''line.png'' 180 762 80 10,
             SetFont ''Helvetica'' 9, DrawString 180 767 ''11/04/2026''] # rest_out)"
proof -
  let ?p = "\<lparr>page_content = (1::nat), page_text = Inr ''Date:'', page_overlays = []\<rparr>"
  have 1: "find_text_coordinates ?p DATE_MARKER = Inr (Some (100, 772), False)"
    by code_simp
  have 2: "(100::int, 772::int) = (case Some (100, 772) of None \<Rightarrow> (260, 259) | Some c \<Rightarrow> c)"
    by simp
  have 3: "(180::int) = fst (100::int, 772::int) + 80" by simp
  have 4: "(762::int) = snd (100::int, 772::int) - 10" by simp
  from page1_date_drawing[OF 1 2 3 4, of "[]" "''signature.png''" "''line.png''" "''11/04/2026''"]
  show ?thesis by auto
qed

text \<open>
  Claim C5. On page 1 the signature coordinate is the one found or else \<open>(250, 293)\<close>, the
  date coordinate the one found or else \<open>(260, 259)\<close>; both are shifted by \<open>(+80, -10)\<close>
  before anything is drawn, and the signature image is drawn with size 120 by 30.
\<close>

theorem page1_coordinates:
  assumes "find_text_coordinates p SIGNATURE_MARKER = Inr (sf, h1)"
    and "find_text_coordinates p DATE_MARKER = Inr (df, h2)"
    and "sc = (case sf of None \<Rightarrow> (250, 293) | Some c \<Rightarrow> c)"
    and "dc = (case df of None \<Rightarrow> (260, 259) | Some c \<Rightarrow> c)"
  shows "\<exists>date_ops.
           page0_overlay p s b d =
             Inr (DrawImage s (fst sc + 80) (snd sc - 10) 120 30 # date_ops) \<and>
           (h2 \<longrightarrow> date_ops = []) \<and>
           (\<not> h2 \<longrightarrow> date_ops = [DrawImage b (fst dc + 80) (snd dc - 10) 80 10,
                                  SetFont ''Helvetica'' 9,
                                  DrawString (fst dc + 80) (snd dc - 10 + 5) d]) \<and>
           (sf = None \<longrightarrow> sc = (250, 293)) \<and>
           (df = None \<longrightarrow> dc = (260, 259) \<and> \<not> h2)"
proof -
  have "\<not> h2" if "df = None"
    using assms(2) that find_text_coordinates_None_flag by blast
  with page0_overlay_eq[OF assms(1,2), of s b d] assms(3,4) show ?thesis by auto
qed

theorem page1_coordinates_witness:
  "page0_overlay
     \<lparr>page_content = (1::nat), page_text = Inr (''Signature:'' @ [CHR 0x0A] @ ''Date:''),
      page_overlays = []\<rparr> ''signature.png'' ''line.png'' ''11/04/2026'' =
   Inr [DrawImage ''signature.png'' 180 762 120 30, DrawImage ''line.png'' 180 742 80 10,
        SetFont ''Helvetica'' 9, DrawString 180 747 ''11/04/2026'']"
proof -
  let ?p = "\<lparr>page_content = (1::nat),
             page_text = Inr (''Signature:'' @ [CHR 0x0A] @ ''Date:''), page_overlays = []\<rparr>"
  have 1: "find_text_coordinates ?p SIGNATURE_MARKER = Inr (Some (100, 772), False)"
    by code_simp
  have 2: "find_text_coordinates ?p DATE_MARKER = Inr (Some (100, 752), False)"
    by code_simp
  have 3: "(100::int, 772::int) = (case Some (100, 772) of None \<Rightarrow> (250, 293) | Some c \<Rightarrow> c)"
    by simp
  have 4: "(100::int, 752::int) = (case Some (100, 752) of None \<Rightarrow> (260, 259) | Some c \<Rightarrow> c)"
    by simp
  from page1_coordinates[OF 1 2 3 4, of "''signature.png''" "''line.png''" "''11/04/2026''"]
  show ?thesis by auto
qed

text \<open>
  Claim C6. Page 2 is composed exactly when the document has at least two pages: a document
  without pages raises, a 1-page document yields page 1 alone, and with two or more pages the
  second output page is the second source page with one overlay merged, which holds a single
  drawing, the signature image of size 160 by 20 at the coordinate found on that page or else
  \<open>(230, 162)\<close>, shifted by \<open>(+80, -10)\<close>. No date is looked for or drawn there.
\<close>

theorem page2_composition:
  "(pages = [] \<longrightarrow> add_signature_and_date pages s b d = Inl IndexError) \<and>
   (\<forall>p0. pages = [p0] \<longrightarrow>
      (\<exists>ov0. page0_overlay p0 s b d = Inr ov0 \<and>
             add_signature_and_date pages s b d = Inr [merge_page p0 ov0])) \<and>
   (2 \<le> length pages \<longrightarrow>
      (\<exists>sf h c out.
         find_text_coordinates (pages ! 1) SIGNATURE_MARKER = Inr (sf, h) \<and>
         c = (case sf of None \<Rightarrow> (230, 162) | Some c \<Rightarrow> c) \<and>
         add_signature_and_date pages s b d = Inr out \<and> 2 \<le> length out \<and>
         out ! 1 = merge_page (pages ! 1) [DrawImage s (fst c + 80) (snd c - 10) 160 20]))"
proof (intro conjI impI allI)
  assume "pages = []"
  then show "add_signature_and_date pages s b d = Inl IndexError"
    by (simp add: add_signature_and_date_Nil)
next
  fix p0 assume "pages = [p0]"
  then show "\<exists>ov0. page0_overlay p0 s b d = Inr ov0 \<and>
             add_signature_and_date pages s b d = Inr [merge_page p0 ov0]"
    using page0_overlay_returns[of p0 s b d] add_signature_and_date_one[of p0 s b d] by auto
next
  assume len: "2 \<le> length pages"
  then have ne: "pages \<noteq> []" by auto
  obtain sf h where f: "find_text_coordinates (pages ! 1) SIGNATURE_MARKER = Inr (sf, h)"
    using find_text_coordinates_returns[of "pages ! 1" SIGNATURE_MARKER] by auto
  note ov = page1_overlay_eq[OF f, of s]
  from add_signature_and_date_shape[OF ne, of s b d] len ov obtain ov0 where
    "add_signature_and_date pages s b d =
       Inr (merge_page (hd pages) ov0 #
            merge_page (pages ! 1)
              [DrawImage s (fst (case sf of None \<Rightarrow> (230, 162) | Some c \<Rightarrow> c) + 80)
                           (snd (case sf of None \<Rightarrow> (230, 162) | Some c \<Rightarrow> c) - 10) 160 20] #
            take 17 (drop 2 pages))"
    by auto
  with f show "\<exists>sf h c out.
         find_text_coordinates (pages ! 1) SIGNATURE_MARKER = Inr (sf, h) \<and>
         c = (case sf of None \<Rightarrow> (230, 162) | Some c \<Rightarrow> c) \<and>
         add_signature_and_date pages s b d = Inr out \<and> 2 \<le> length out \<and>
         out ! 1 = merge_page (pages ! 1) [DrawImage s (fst c + 80) (snd c - 10) 160 20]"
    by auto
qed

theorem page2_composition_witness:
  "\<exists>out. add_signature_and_date
      [\<lparr>page_content = (1::nat), page_text = Inr ''Date:'', page_overlays = []\<rparr>,
       \<lparr>page_content = 2, page_text = Inr ''Date: 1/2/2024'', page_overlays = []\<rparr>]
      ''signature.png'' ''line.png'' ''11/04/2026'' = Inr out \<and>
    out ! 1 = merge_page \<lparr>page_content = 2, page_text = Inr ''Date: 1/2/2024'', page_overlays = []\<rparr>
                [DrawImage ''signature.png'' 310 152 160 20]"
proof -
  let ?q = "\<lparr>page_content = (2::nat), page_text = Inr ''Date: 1/2/2024'', page_overlays = []\<rparr>"
  let ?ps = "[\<lparr>page_content = (1::nat), page_text = Inr ''Date:'', page_overlays = []\<rparr>, ?q]"
  have 1: "find_text_coordinates ?q SIGNATURE_MARKER = Inr (None, False)"
    by code_simp
  have 2: "2 \<le> length ?ps" by simp
  from page2_composition[of ?ps "''signature.png''" "''line.png''" "''11/04/2026''"] 1 2
  show ?thesis by auto
qed

section \<open>The run: missing inputs and conversion failure\<close>

lemma falsy_None: "d = None \<Longrightarrow> falsy d"
  by (simp add: falsy_def)

text \<open>
  Claim C8. If the input has no spreadsheet key (or an empty one), or one of the three blobs
  (spreadsheet, signature image, blank-line image, the last two under their default keys when
  none is given) is absent from the store, the run ends with a missing-input error and the
  world is exactly the one it started from: no file has been written, the converter has not
  been invoked, and the store holds no new blob.
\<close>

theorem missing_input_aborts:
  assumes "d = (case inp of
                  None \<Rightarrow> \<lparr>input_xlsx_key = None, input_signature_key = None,
                             input_blank_image_key = None\<rparr>
                | Some d \<Rightarrow> d)"
    and "input_xlsx_key d = None \<or> input_xlsx_key d = Some [] \<or>
         (\<exists>k. input_xlsx_key d = Some k \<and>
            (store w k = None \<or>
             store w (case input_signature_key d of None \<Rightarrow> ''signature.png'' | Some k \<Rightarrow> k)
               = None \<or>
             store w (case input_blank_image_key d of None \<Rightarrow> ''line.png'' | Some k \<Rightarrow> k)
               = None))"
  shows "\<exists>e. main env temp_dir today_date inp w = (Inl e, w) \<and>
              (e = ValueError ''No XLSX file key provided in input'' \<or>
               e = FileNotFoundError ''One or more input files not found in key-value store'')"
proof -
  consider (none) "input_xlsx_key d = None" | (empty) "input_xlsx_key d = Some []"
    | (missing) k where "input_xlsx_key d = Some k" "k \<noteq> []"
        "store w k = None \<or>
         store w (case input_signature_key d of None \<Rightarrow> ''signature.png'' | Some k \<Rightarrow> k) = None \<or>
         store w (case input_blank_image_key d of None \<Rightarrow> ''line.png'' | Some k \<Rightarrow> k) = None"
    using assms(2) by (cases "input_xlsx_key d") auto
  then show ?thesis
  proof cases
    case none
    then show ?thesis unfolding main_def assms(1)[symmetric] by (simp add: Let_def)
  next
    case empty
    then show ?thesis unfolding main_def assms(1)[symmetric] by (simp add: Let_def)
  next
    case missing
    then have "falsy (store w k) \<or>
       falsy (store w (case input_signature_key d of None \<Rightarrow> ''signature.png'' | Some k \<Rightarrow> k)) \<or>
       falsy (store w (case input_blank_image_key d of None \<Rightarrow> ''line.png'' | Some k \<Rightarrow> k))"
      using falsy_None by blast
    with missing(1,2) show ?thesis
      unfolding main_def assms(1)[symmetric] by (simp add: Let_def)
  qed
qed


theorem missing_input_aborts_witness:
  "\<exists>e. main \<lparr>run_soffice = (\<lambda>cmd fs. (\<lparr>returncode = 0, stdout = [], stderr = []\<rparr>, fs)),
              read_pdf = (\<lambda>data. Inr ([] :: nat page list)), write_pdf = (\<lambda>pages. [])\<rparr>
        ''/tmp/run'' ''11/04/2026''
        (Some \<lparr>input_xlsx_key = Some ''book.xlsx'', input_signature_key = None,
               input_blank_image_key = None\<rparr>)
        \<lparr>store = [''book.xlsx'' \<mapsto> ''PK''], files = Map.empty, events = []\<rparr>
      = (Inl e, \<lparr>store = [''book.xlsx'' \<mapsto> ''PK''], files = Map.empty, events = []\<rparr>)"
proof -
  let ?d = "\<lparr>input_xlsx_key = Some ''book.xlsx'', input_signature_key = None,
              input_blank_image_key = None\<rparr>"
  let ?w = "\<lparr>store = [''book.xlsx'' \<mapsto> ''PK''], files = Map.empty, events = []\<rparr>"
  have 1: "?d = (case Some ?d of
                  None \<Rightarrow> \<lparr>input_xlsx_key = None, input_signature_key = None,
                             input_blank_image_key = None\<rparr>
                | Some d \<Rightarrow> d)" by simp
  have 2: "input_xlsx_key ?d = None \<or> input_xlsx_key ?d = Some [] \<or>
         (\<exists>k. input_xlsx_key ?d = Some k \<and>
            (store ?w k = None \<or>
             store ?w (case input_signature_key ?d of None \<Rightarrow> ''signature.png'' | Some k \<Rightarrow> k)
               = None \<or>
             store ?w (case input_blank_image_key ?d of None \<Rightarrow> ''line.png'' | Some k \<Rightarrow> k)
               = None))" by simp
  from missing_input_aborts[OF 1 2] show ?thesis by blast
qed

lemma convert_xlsx_to_pdf_eq:
  assumes "cmd = [soffice, ''--headless'', ''--convert-to'', ''pdf'', ''--outdir'', out_dir,
                  xlsx_path]"
    and "run cmd (files w) = (result, fs')"
    and "pdf_out = path_join out_dir (splitext_root (basename xlsx_path) @ ''.pdf'')"
  shows "convert_xlsx_to_pdf run xlsx_path out_dir w =
           (if returncode result = 0 \<and> fs' pdf_out \<noteq> None then Inr pdf_out
            else Inl (FileNotFoundError (''Conversion failed: '' @ stderr result)),
            log (ConverterInvoked cmd) (w\<lparr>files := fs'\<rparr>))"
  using assms(2) unfolding convert_xlsx_to_pdf_def assms(1,3)
  by (simp add: Let_def log_def)

lemma main_body_convert_fails:
  assumes "convert_xlsx_to_pdf (run_soffice env) (path_join temp_dir ''input.xlsx'') temp_dir
             (write_file (path_join temp_dir ''line.png'') bd
               (write_file (path_join temp_dir ''signature.png'') sd
                 (write_file (path_join temp_dir ''input.xlsx'') xd w))) = (Inl e, w')"
  shows "main_body env temp_dir today_date k xd sd bd w = (Inl e, w')"
  using assms by (simp add: main_body_def Let_def)

lemma main_valid:
  assumes "k \<noteq> []" "store w k = Some xd" "xd \<noteq> []"
    and "store w (case sk of None \<Rightarrow> ''signature.png'' | Some k \<Rightarrow> k) = Some sd" "sd \<noteq> []"
    and "store w (case bk of None \<Rightarrow> ''line.png'' | Some k \<Rightarrow> k) = Some bd" "bd \<noteq> []"
  shows "main env temp_dir today_date
           (Some \<lparr>input_xlsx_key = Some k, input_signature_key = sk,
                  input_blank_image_key = bk\<rparr>) w =
         (fst (main_body env temp_dir today_date k xd sd bd w),
          cleanup temp_dir (snd (main_body env temp_dir today_date k xd sd bd w)))"
  using assms by (simp add: main_def Let_def falsy_def split: prod.splits)

text \<open>
  Claim C9. With \<open>result\<close> and \<open>fs'\<close> what the converter returns and leaves, the conversion
  step raises exactly when the exit status is not 0 or the expected PDF file does not exist,
  and the error then carries the captured diagnostic text. When this happens in a run whose
  inputs are all present, the run ends with that error; the store is unchanged, and the only
  effects are the three input files written and the converter invoked.
\<close>

theorem conversion_failure:
  assumes "cmd = [soffice, ''--headless'', ''--convert-to'', ''pdf'', ''--outdir'', out_dir,
                  xlsx_path]"
    and "run cmd (files w) = (result, fs')"
    and "pdf_out = path_join out_dir (splitext_root (basename xlsx_path) @ ''.pdf'')"
  shows "((\<exists>e. fst (convert_xlsx_to_pdf run xlsx_path out_dir w) = Inl e) \<longleftrightarrow>
            (returncode result \<noteq> 0 \<or> fs' pdf_out = None)) \<and>
         (returncode result \<noteq> 0 \<or> fs' pdf_out = None \<longrightarrow>
            fst (convert_xlsx_to_pdf run xlsx_path out_dir w) =
              Inl (FileNotFoundError (''Conversion failed: '' @ stderr result))) \<and>
         (\<forall>(env :: 'e env) today_date k sk bk xd sd bd w0.
            run = run_soffice env \<and> xlsx_path = path_join out_dir ''input.xlsx'' \<and>
            k \<noteq> [] \<and> store w0 k = Some xd \<and> xd \<noteq> [] \<and>
            store w0 (case sk of None \<Rightarrow> ''signature.png'' | Some k \<Rightarrow> k) = Some sd \<and> sd \<noteq> [] \<and>
            store w0 (case bk of None \<Rightarrow> ''line.png'' | Some k \<Rightarrow> k) = Some bd \<and> bd \<noteq> [] \<and>
            w = write_file (path_join out_dir ''line.png'') bd
                  (write_file (path_join out_dir ''signature.png'') sd
                    (write_file (path_join out_dir ''input.xlsx'') xd w0)) \<and>
            (returncode result \<noteq> 0 \<or> fs' pdf_out = None) \<longrightarrow>
            (\<exists>w'. main env out_dir today_date
                     (Some \<lparr>input_xlsx_key = Some k, input_signature_key = sk,
                            input_blank_image_key = bk\<rparr>) w0 =
                   (Inl (FileNotFoundError (''Conversion failed: '' @ stderr result)), w') \<and>
                 store w' = store w0 \<and>
                 events w' = events w0 @
                   [FileWritten (path_join out_dir ''input.xlsx''),
                    FileWritten (path_join out_dir ''signature.png''),
                    FileWritten (path_join out_dir ''line.png''),
                    ConverterInvoked cmd]))"
proof (intro conjI allI impI)
  have eq: "convert_xlsx_to_pdf run xlsx_path out_dir w =
           (if returncode result = 0 \<and> fs' pdf_out \<noteq> None then Inr pdf_out
            else Inl (FileNotFoundError (''Conversion failed: '' @ stderr result)),
            log (ConverterInvoked cmd) (w\<lparr>files := fs'\<rparr>))"
    using assms by (rule convert_xlsx_to_pdf_eq)
  show "(\<exists>e. fst (convert_xlsx_to_pdf run xlsx_path out_dir w) = Inl e) \<longleftrightarrow>
            (returncode result \<noteq> 0 \<or> fs' pdf_out = None)"
    unfolding eq by auto
  show "fst (convert_xlsx_to_pdf run xlsx_path out_dir w) =
              Inl (FileNotFoundError (''Conversion failed: '' @ stderr result))"
    if "returncode result \<noteq> 0 \<or> fs' pdf_out = None"
    unfolding eq using that by auto
  fix env :: "'e env" and today_date k sk bk xd sd bd w0
  assume h: "run = run_soffice env \<and> xlsx_path = path_join out_dir ''input.xlsx'' \<and>
            k \<noteq> [] \<and> store w0 k = Some xd \<and> xd \<noteq> [] \<and>
            store w0 (case sk of None \<Rightarrow> ''signature.png'' | Some k \<Rightarrow> k) = Some sd \<and> sd \<noteq> [] \<and>
            store w0 (case bk of None \<Rightarrow> ''line.png'' | Some k \<Rightarrow> k) = Some bd \<and> bd \<noteq> [] \<and>
            w = write_file (path_join out_dir ''line.png'') bd
                  (write_file (path_join out_dir ''signature.png'') sd
                    (write_file (path_join out_dir ''input.xlsx'') xd w0)) \<and>
            (returncode result \<noteq> 0 \<or> fs' pdf_out = None)"
  let ?e = "FileNotFoundError (''Conversion failed: '' @ stderr result)"
  let ?w1 = "log (ConverterInvoked cmd) (w\<lparr>files := fs'\<rparr>)"
  from h eq have c: "convert_xlsx_to_pdf (run_soffice env) (path_join out_dir ''input.xlsx'')
      out_dir (write_file (path_join out_dir ''line.png'') bd
                  (write_file (path_join out_dir ''signature.png'') sd
                    (write_file (path_join out_dir ''input.xlsx'') xd w0))) = (Inl ?e, ?w1)"
    by auto
  have b: "main_body env out_dir today_date k xd sd bd w0 = (Inl ?e, ?w1)"
    by (rule main_body_convert_fails[OF c])
  from h have m: "main env out_dir today_date
           (Some \<lparr>input_xlsx_key = Some k, input_signature_key = sk,
                  input_blank_image_key = bk\<rparr>) w0 = (Inl ?e, cleanup out_dir ?w1)"
    using main_valid[of k w0 xd sk sd bk bd env out_dir today_date] b by simp
  have s: "store (cleanup out_dir ?w1) = store w0"
    using h by (simp add: cleanup_def log_def write_file_def)
  have ev: "events (cleanup out_dir ?w1) = events w0 @
                   [FileWritten (path_join out_dir ''input.xlsx''),
                    FileWritten (path_join out_dir ''signature.png''),
                    FileWritten (path_join out_dir ''line.png''),
                    ConverterInvoked cmd]"
    using h by (simp add: cleanup_def log_def write_file_def)
  from m s ev show "\<exists>w'. main env out_dir today_date
                     (Some \<lparr>input_xlsx_key = Some k, input_signature_key = sk,
                            input_blank_image_key = bk\<rparr>) w0 =
                   (Inl (FileNotFoundError (''Conversion failed: '' @ stderr result)), w') \<and>
                 store w' = store w0 \<and>
                 events w' = events w0 @
                   [FileWritten (path_join out_dir ''input.xlsx''),
                    FileWritten (path_join out_dir ''signature.png''),
                    FileWritten (path_join out_dir ''line.png''),
                    ConverterInvoked cmd]"
    by blast
qed


theorem conversion_failure_witness:
  "\<exists>w'. main \<lparr>run_soffice = (\<lambda>cmd fs. (\<lparr>returncode = 1, stdout = [], stderr = ''no display''\<rparr>, fs)),
               read_pdf = (\<lambda>data. Inr ([] :: nat page list)), write_pdf = (\<lambda>pages. [])\<rparr>
        ''/tmp/run'' ''11/04/2026''
        (Some \<lparr>input_xlsx_key = Some ''book.xlsx'', input_signature_key = None,
               input_blank_image_key = None\<rparr>)
        \<lparr>store = [''book.xlsx'' \<mapsto> ''PK'', ''signature.png'' \<mapsto> ''PNG'', ''line.png'' \<mapsto> ''PNG''],
         files = Map.empty, events = []\<rparr>
      = (Inl (FileNotFoundError ''Conversion failed: no display''), w') \<and>
      store w' = [''book.xlsx'' \<mapsto> ''PK'', ''signature.png'' \<mapsto> ''PNG'', ''line.png'' \<mapsto> ''PNG'']"
proof -
  let ?res = "\<lparr>returncode = 1, stdout = [], stderr = ''no display''\<rparr>"
  let ?run = "\<lambda>(cmd :: string list) (fs :: filesystem). (?res, fs)"
  let ?env = "\<lparr>run_soffice = ?run, read_pdf = (\<lambda>data. Inr ([] :: nat page list)),
               write_pdf = (\<lambda>pages. [])\<rparr>"
  let ?init = "\<lparr>store = [''book.xlsx'' \<mapsto> ''PK'', ''signature.png'' \<mapsto> ''PNG'',
                       ''line.png'' \<mapsto> ''PNG''],
              files = Map.empty, events = []\<rparr>"
  let ?dir = "''/tmp/run''"
  let ?xp = "path_join ?dir ''input.xlsx''"
  let ?w = "write_file (path_join ?dir ''line.png'') ''PNG''
              (write_file (path_join ?dir ''signature.png'') ''PNG''
                (write_file (path_join ?dir ''input.xlsx'') ''PK'' ?init))"
  let ?cmd = "[soffice, ''--headless'', ''--convert-to'', ''pdf'', ''--outdir'', ?dir, ?xp]"
  let ?out = "path_join ?dir (splitext_root (basename ?xp) @ ''.pdf'')"
  have 1: "?cmd = [soffice, ''--headless'', ''--convert-to'', ''pdf'', ''--outdir'', ?dir, ?xp]"
    by (rule refl)
  have 2: "?run ?cmd (files ?w) = (?res, files ?w)" by (rule refl)
  have 3: "?out = path_join ?dir (splitext_root (basename ?xp) @ ''.pdf'')" by (rule refl)
  have prem: "?run = run_soffice ?env \<and> ?xp = path_join ?dir ''input.xlsx'' \<and>
            ''book.xlsx'' \<noteq> [] \<and> store ?init ''book.xlsx'' = Some ''PK'' \<and> ''PK'' \<noteq> [] \<and>
            store ?init (case None of None \<Rightarrow> ''signature.png'' | Some k \<Rightarrow> k) = Some ''PNG'' \<and>
            ''PNG'' \<noteq> [] \<and>
            store ?init (case None of None \<Rightarrow> ''line.png'' | Some k \<Rightarrow> k) = Some ''PNG'' \<and>
            ''PNG'' \<noteq> [] \<and>
            ?w = write_file (path_join ?dir ''line.png'') ''PNG''
                  (write_file (path_join ?dir ''signature.png'') ''PNG''
                    (write_file (path_join ?dir ''input.xlsx'') ''PK'' ?init)) \<and>
            (returncode ?res \<noteq> 0 \<or> files ?w ?out = None)"
    by simp
  from conversion_failure[of ?cmd ?dir ?xp ?run ?w ?res "files ?w" ?out, OF 1 2 3]
  have "\<forall>(env :: nat env) today_date k sk bk xd sd bd w0.
            ?run = run_soffice env \<and> ?xp = path_join ?dir ''input.xlsx'' \<and>
            k \<noteq> [] \<and> store w0 k = Some xd \<and> xd \<noteq> [] \<and>
            store w0 (case sk of None \<Rightarrow> ''signature.png'' | Some k \<Rightarrow> k) = Some sd \<and> sd \<noteq> [] \<and>
            store w0 (case bk of None \<Rightarrow> ''line.png'' | Some k \<Rightarrow> k) = Some bd \<and> bd \<noteq> [] \<and>
            ?w = write_file (path_join ?dir ''line.png'') bd
                  (write_file (path_join ?dir ''signature.png'') sd
                    (write_file (path_join ?dir ''input.xlsx'') xd w0)) \<and>
            (returncode ?res \<noteq> 0 \<or> files ?w ?out = None) \<longrightarrow>
            (\<exists>w'. main env ?dir today_date
                     (Some \<lparr>input_xlsx_key = Some k, input_signature_key = sk,
                            input_blank_image_key = bk\<rparr>) w0 =
                   (Inl (FileNotFoundError (''Conversion failed: '' @ stderr ?res)), w') \<and>
                 store w' = store w0 \<and>
                 events w' = events w0 @
                   [FileWritten (path_join ?dir ''input.xlsx''),
                    FileWritten (path_join ?dir ''signature.png''),
                    FileWritten (path_join ?dir ''line.png''),
                    ConverterInvoked ?cmd])"
    by (elim conjE)
  from this[rule_format, where env = ?env and k = "''book.xlsx''" and ?w0.0 = ?init
       and xd = "''PK''" and sk = None and sd = "''PNG''" and bk = None and bd = "''PNG''"
       and today_date = "''11/04/2026''", OF prem]
  show ?thesis by auto
qed

end
